theory Spec2Isabelle
  imports Main "HOL-Library.Sublist" "HOL-Library.Char_ord" "HOL-Library.List_Lexorder"
    "HOL-Library.Product_Lexorder" "HOL-Library.Multiset" "HOL-Library.Word"
begin

section \<open>Name unification (App.py, section 1)\<close>

text \<open>
  A Python \<open>str\<close> is modelled as a \<open>string\<close>: a list of characters, each a code point
  in the range 0..255 (ASCII and Latin-1). Names with code points beyond that range
  are outside the model. All patterns and display names of the rule table are ASCII.
\<close>

subsection \<open>\<open>str.lower\<close> and the \<open>in\<close> operator\<close>

text \<open>
  \<open>str.lower\<close> on code points below 256: the letters \<open>A\<close>..\<open>Z\<close> (65..90) and the
  Latin-1 capitals 192..222 other than the multiplication sign 215 move up by 32;
  every other character stays.
\<close>

definition lower_char :: "char \<Rightarrow> char" where
  "lower_char c =
     (let n = (of_char c :: nat)
      in if (65 \<le> n \<and> n \<le> 90) \<or> (192 \<le> n \<and> n \<le> 222 \<and> n \<noteq> 215)
         then char_of (n + 32) else c)"

definition lower :: "string \<Rightarrow> string" where
  "lower s = map lower_char s"

text \<open>\<open>p in s\<close> on strings: \<open>p\<close> occurs in \<open>s\<close> as a contiguous substring.\<close>

fun py_in :: "string \<Rightarrow> string \<Rightarrow> bool" where
  "py_in p [] = (p = [])"
| "py_in p (c # cs) = (prefix p (c # cs) \<or> py_in p cs)"

subsection \<open>The rule table\<close>

definition unification_map :: "(string list \<times> string) list" where
  "unification_map =
    [([''sullivan''], ''Sullivan''),
     ([''deb''], ''Deb''),
     ([''diana''], ''Diana''),
     ([''kyo''], ''Kyo''),
     ([''fmr president'', ''fmr_president''], ''Fmr President''),
     ([''pluribus''], ''Pluribus''),
     ([''aislinn''], ''Aislinn''),
     ([''kayla''], ''Kayla''),
     ([''long''], ''Long''),
     ([''james hersey'', ''james_heresy''], ''James Hersey''),
     ([''kearsley''], ''Kearsley''),
     ([''zimmerman''], ''Zimmerman''),
     ([''toward''], ''Toward''),
     ([''nord''], ''Nord''),
     ([''molhoj''], ''Molhoj''),
     ([''posting''], ''Posting''),
     ([''iron smith''], ''Iron Smith''),
     ([''pickle hersey''], ''Pickle Hersey''),
     ([''ducky''], ''Ducky''),
     ([''marks''], ''Marks''),
     ([''hull''], ''Hull''),
     ([''mccarthy''], ''McCarthy''),
     ([''loz''], ''Loz''),
     ([''hoffman''], ''Hoffman''),
     ([''bloodshed''], ''Bloodshed''),
     ([''miller''], ''Miller''),
     ([''watluhum''], ''Watluhum''),
     ([''derek''], ''Derek'')]"

subsection \<open>\<open>unify_name\<close>\<close>

text \<open>The literal \<open>"hull's wife"\<close> of the special case.\<close>

definition hulls_wife :: string where
  "hulls_wife = ''hull'' @ [CHR 0x27] @ ''s wife''"

text \<open>
  The inner loop \<open>for pattern in patterns\<close>: true as soon as one pattern, lowercased,
  occurs in the lowercased name.
\<close>

fun match_patterns :: "string list \<Rightarrow> string \<Rightarrow> bool" where
  "match_patterns [] name_lower = False"
| "match_patterns (pattern # patterns) name_lower =
     (if py_in (lower pattern) name_lower then True
      else match_patterns patterns name_lower)"

text \<open>
  The outer loop \<open>for patterns, unified_display in unification_map\<close>: the display name
  of the first rule with a matching pattern, \<open>None\<close> when the loop runs to its end.
\<close>

fun scan_rules :: "(string list \<times> string) list \<Rightarrow> string \<Rightarrow> string option" where
  "scan_rules [] name_lower = None"
| "scan_rules ((patterns, unified_display) # rules) name_lower =
     (if match_patterns patterns name_lower then Some unified_display
      else scan_rules rules name_lower)"

definition unify_name :: "string \<Rightarrow> string" where
  "unify_name name =
     (let name_lower = lower name
      in if py_in hulls_wife name_lower then name
         else (case scan_rules unification_map name_lower of
                 Some unified_display \<Rightarrow> unified_display
               | None \<Rightarrow> name))"


section \<open>Data load and preprocessing (App.py, section 2)\<close>

text \<open>
  A data frame is the list of its rows, in row order. A date is the number of its day
  (the \<open>Date\<close> column holds calendar dates). The influence column is an integer column,
  which pandas holds as \<open>int64\<close>: a value is a 64-bit word, read as a signed number by
  \<open>sint\<close>, and sums wrap around. A column of decimal numbers (\<open>float64\<close>) read from the
  file is outside the model. The rows \<open>read_csv\<close> returns have a value in every column;
  where later frames have missing values (\<open>NaN\<close>), a missing value is \<open>None\<close>. Reading and
  parsing the CSV file is not modelled.
\<close>

record csv_row =
  csv_Date :: int
  csv_User :: string
  csv_Influence :: "64 word"

record row =
  Date :: int
  UnifiedUser :: string
  Influence :: "64 word"

record ranked_row = row +
  Rank :: nat

subsection \<open>Library operations of pandas\<close>

text \<open>
  \<open>df.groupby(key).apply(f).reset_index(drop=True)\<close> for an \<open>f\<close> that returns a frame:
  the groups are taken in ascending order of their key, each group keeps its rows in
  frame order, and the frames returned by \<open>f\<close> are concatenated.
\<close>

definition groupby_apply :: "('r \<Rightarrow> 'k::linorder) \<Rightarrow> ('r list \<Rightarrow> 's list) \<Rightarrow> 'r list \<Rightarrow> 's list" where
  "groupby_apply key f df =
     concat (map (\<lambda>k. f (filter (\<lambda>r. key r = k) df)) (sort (remdups (map key df))))"

text \<open>
  \<open>df.groupby(["Date", "UnifiedUser"], as_index=False)["Political Influence"].sum()\<close>:
  one row per distinct key pair, in ascending order of the pair, holding the sum of
  the influence of the rows with that key. The sum is the sum of 64-bit words: it wraps.
\<close>

definition groupby_sum :: "row list \<Rightarrow> row list" where
  "groupby_sum df =
     map (\<lambda>(d, u). \<lparr>Date = d, UnifiedUser = u,
            Influence = sum_list (map Influence (filter (\<lambda>r. Date r = d \<and> UnifiedUser r = u) df))\<rparr>)
         (sort (remdups (map (\<lambda>r. (Date r, UnifiedUser r)) df)))"

text \<open>
  \<open>grp.sort_values("Political Influence", ascending=False)\<close>: the rows in descending
  order of the signed value of the influence column. The call leaves \<open>kind\<close> at its
  default (\<open>quicksort\<close>), which pandas documents as not stable, so the order among rows
  of equal influence is the library's choice and is not written in the source. That
  choice is the parameter \<open>ties\<close>: some rearrangement of the rows, after which rows of
  equal influence keep their order. Every descending order of the rows arises from
  some \<open>ties\<close>, and \<open>rearranges\<close> is all that is known of it.
\<close>

definition sort_values :: "(row list \<Rightarrow> row list) \<Rightarrow> row list \<Rightarrow> row list" where
  "sort_values ties grp = sort_key (\<lambda>r. - sint (Influence r)) (ties grp)"

definition rearranges :: "(row list \<Rightarrow> row list) \<Rightarrow> bool" where
  "rearranges ties \<longleftrightarrow> (\<forall>xs. mset (ties xs) = mset xs)"

text \<open>
  The choice that leaves the rows as they come: rows of equal influence then keep their
  input order.
\<close>

definition input_order :: "row list \<Rightarrow> row list" where
  "input_order xs = xs"

text \<open>\<open>Series.unique()\<close>: the distinct values in order of first appearance.\<close>

fun unique :: "'a list \<Rightarrow> 'a list" where
  "unique [] = []"
| "unique (x # xs) = x # unique (filter (\<lambda>y. y \<noteq> x) xs)"

text \<open>
  \<open>pd.date_range(start, end, freq="D")\<close>: every day from \<open>start\<close> to \<open>end\<close>, both
  included. On an empty frame \<open>min()\<close> and \<open>max()\<close> are \<open>NaT\<close> and \<open>date_range\<close> raises.
\<close>

datatype error = ValueError

definition date_range :: "int option \<Rightarrow> int option \<Rightarrow> error + int list" where
  "date_range start end =
     (case (start, end) of
        (Some s, Some e) \<Rightarrow> Inr [s..e]
      | _ \<Rightarrow> Inl ValueError)"

definition column_min :: "int list \<Rightarrow> int option" where
  "column_min xs = (if xs = [] then None else Some (Min (set xs)))"

definition column_max :: "int list \<Rightarrow> int option" where
  "column_max xs = (if xs = [] then None else Some (Max (set xs)))"

text \<open>\<open>pd.MultiIndex.from_product([all_dates, all_users])\<close>, first level slowest.\<close>

definition from_product :: "'a list \<Rightarrow> 'b list \<Rightarrow> ('a \<times> 'b) list" where
  "from_product xs ys = concat (map (\<lambda>x. map (\<lambda>y. (x, y)) ys) xs)"

text \<open>
  The conversion of an \<open>int64\<close> value to \<open>float64\<close>. A \<open>float64\<close> has 53 significant
  bits: a number below \<open>2 ^ 53\<close> in magnitude is kept, a larger one loses its low bits
  and is rounded to the nearest value that fits, to the one with an even last bit when
  two are equally near. \<open>excess_bits m\<close> is the number of low bits that \<open>m\<close> loses: the
  number of halvings that bring \<open>m\<close> below \<open>2 ^ 53\<close>, at most 11 for the magnitude
  of an \<open>int64\<close>. The result is again an integer, and the model holds a \<open>float64\<close>
  cell by that integer.
\<close>

fun lost_bits :: "nat \<Rightarrow> int \<Rightarrow> nat" where
  "lost_bits 0 m = 0"
| "lost_bits (Suc k) m = (if m < 2 ^ 53 then 0 else Suc (lost_bits k (m div 2)))"

definition excess_bits :: "int \<Rightarrow> nat" where
  "excess_bits m = lost_bits 11 m"

definition float64_of_int :: "int \<Rightarrow> int" where
  "float64_of_int n =
     (let m = \<bar>n\<bar>;
          e = excess_bits m;
          q = m div 2 ^ e;
          r = m mod 2 ^ e;
          q' = (if 2 * r > 2 ^ e \<or> (2 * r = 2 ^ e \<and> odd q) then q + 1 else q)
      in sgn n * (q' * 2 ^ e))"

text \<open>
  \<open>pd.merge(full_df, df, how="left", on=["Date", "UnifiedUser"])\<close>: every row of the
  left frame, in order, once for each row of \<open>df\<close> with the same key, and once with
  missing influence and rank when \<open>df\<close> has none. When some row of the left frame has
  no match, the influence and rank columns of the result must hold \<open>NaN\<close> and become
  \<open>float64\<close>: every value of \<open>df\<close> is then converted. When every row has a match the
  columns stay \<open>int64\<close>.
\<close>

record merged_row =
  m_Date :: int
  m_UnifiedUser :: string
  m_Influence :: "int option"
  m_Rank :: "nat option"

definition has_unmatched :: "(int \<times> string) list \<Rightarrow> ranked_row list \<Rightarrow> bool" where
  "has_unmatched full_df df =
     list_ex (\<lambda>(d, u). filter (\<lambda>r. Date r = d \<and> UnifiedUser r = u) df = []) full_df"

definition merged_value :: "bool \<Rightarrow> int \<Rightarrow> int" where
  "merged_value na v = (if na then float64_of_int v else v)"

text \<open>The rows of the result for the left row \<open>(d, u)\<close>.\<close>

definition matched_rows :: "bool \<Rightarrow> int \<Rightarrow> string \<Rightarrow> ranked_row list \<Rightarrow> merged_row list" where
  "matched_rows na d u df =
     (case filter (\<lambda>r. Date r = d \<and> UnifiedUser r = u) df of
        [] \<Rightarrow> [\<lparr>m_Date = d, m_UnifiedUser = u, m_Influence = None, m_Rank = None\<rparr>]
      | ms \<Rightarrow> map (\<lambda>r. \<lparr>m_Date = d, m_UnifiedUser = u,
                         m_Influence = Some (merged_value na (sint (Influence r))),
                         m_Rank = Some (nat (merged_value na (int (Rank r))))\<rparr>) ms)"

definition merge_left :: "(int \<times> string) list \<Rightarrow> ranked_row list \<Rightarrow> merged_row list" where
  "merge_left full_df df =
     (let na = has_unmatched full_df df
      in concat (map (\<lambda>(d, u). matched_rows na d u df) full_df))"

subsection \<open>\<open>load_and_preprocess_data\<close>\<close>

text \<open>Step 1, \<open>df["UnifiedUser"] = df["User"].apply(unify_name)\<close>, on one row.\<close>

definition with_unified_user :: "csv_row \<Rightarrow> row" where
  "with_unified_user r =
     \<lparr>Date = csv_Date r, UnifiedUser = unify_name (csv_User r), Influence = csv_Influence r\<rparr>"

text \<open>\<open>range(1, len(group) + 1)\<close> assigned to the \<open>Rank\<close> column of the sorted group.\<close>

definition compute_daily_ranks :: "(row list \<Rightarrow> row list) \<Rightarrow> row list \<Rightarrow> ranked_row list" where
  "compute_daily_ranks ties grp =
     (let grp' = sort_values ties grp
      in map2 (\<lambda>r k. \<lparr>Date = Date r, UnifiedUser = UnifiedUser r, Influence = Influence r,
                       Rank = k\<rparr>)
           grp' [1..<length grp' + 1])"

definition load_and_preprocess_data :: "(row list \<Rightarrow> row list) \<Rightarrow> csv_row list \<Rightarrow> ranked_row list" where
  "load_and_preprocess_data ties csv =
     (let df = map with_unified_user csv;
          grouped = groupby_sum df
      in groupby_apply Date (compute_daily_ranks ties) grouped)"

subsection \<open>\<open>create_all_dates_user_df\<close>\<close>

text \<open>
  A row of the densified frame. The influence is the number the cell holds (an
  \<open>int64\<close>, or a \<open>float64\<close> with an integer value); the rank is missing when the date
  has no real row.
\<close>

record dense_row =
  d_Date :: int
  d_UnifiedUser :: string
  d_Influence :: int
  d_Rank :: "nat option"

text \<open>
  \<open>Series.max(skipna=True)\<close>: the largest value that is present, itself missing when
  no value is present. In \<open>fill_missing\<close>, \<open>fillna\<close> with a missing value leaves the
  column as it is.
\<close>

definition series_max :: "nat option list \<Rightarrow> nat option" where
  "series_max col =
     (case List.map_filter (\<lambda>v. v) col of
        [] \<Rightarrow> None
      | k # ks \<Rightarrow> Some (Max (set (k # ks))))"

definition fill_missing :: "merged_row list \<Rightarrow> dense_row list" where
  "fill_missing grp =
     (let max_rank = series_max (map m_Rank grp)
      in map (\<lambda>r. \<lparr>d_Date = m_Date r, d_UnifiedUser = m_UnifiedUser r,
                    d_Influence = (case m_Influence r of None \<Rightarrow> 0 | Some v \<Rightarrow> v),
                    d_Rank = (case m_Rank r of None \<Rightarrow> max_rank | Some k \<Rightarrow> Some k)\<rparr>) grp)"

definition create_all_dates_user_df :: "ranked_row list \<Rightarrow> error + dense_row list" where
  "create_all_dates_user_df df =
     (case date_range (column_min (map Date df)) (column_max (map Date df)) of
        Inl e \<Rightarrow> Inl e
      | Inr all_dates \<Rightarrow>
          (let all_users = unique (map UnifiedUser df);
               full_index = from_product all_dates all_users;
               merged = merge_left full_index df
           in Inr (groupby_apply m_Date fill_missing merged)))"


section \<open>Example data\<close>

text \<open>The raw rows of the example of the specification, all on day 1.\<close>

definition example_csv :: "csv_row list" where
  "example_csv =
     [\<lparr>csv_Date = 1, csv_User = ''Sullivan Jr.'', csv_Influence = 10\<rparr>,
      \<lparr>csv_Date = 1, csv_User = ''sullivan'', csv_Influence = 5\<rparr>,
      \<lparr>csv_Date = 1, csv_User = ''Deb H.'', csv_Influence = 20\<rparr>]"


text \<open>
  An aggregated frame over the days 1..3 and the users \<open>A\<close> and \<open>B\<close>, in which \<open>B\<close> has
  no row on day 2.
\<close>

definition example_df :: "ranked_row list" where
  "example_df =
     [\<lparr>Date = 1, UnifiedUser = ''A'', Influence = 10, Rank = 1\<rparr>,
      \<lparr>Date = 1, UnifiedUser = ''B'', Influence = 5, Rank = 2\<rparr>,
      \<lparr>Date = 2, UnifiedUser = ''A'', Influence = 7, Rank = 1\<rparr>,
      \<lparr>Date = 3, UnifiedUser = ''B'', Influence = 9, Rank = 1\<rparr>,
      \<lparr>Date = 3, UnifiedUser = ''A'', Influence = 4, Rank = 2\<rparr>]"

text \<open>
  An aggregated frame over the days 1..2 with a missing pair, in which the influence
  of \<open>A\<close> on day 1 is \<open>2 ^ 53 + 1\<close>.
\<close>

definition large_df :: "ranked_row list" where
  "large_df =
     [\<lparr>Date = 1, UnifiedUser = ''A'', Influence = 9007199254740993, Rank = 1\<rparr>,
      \<lparr>Date = 2, UnifiedUser = ''B'', Influence = 5, Rank = 1\<rparr>]"


section \<open>Properties of the name unifier\<close>

subsection \<open>Auxiliary facts\<close>

lemma py_in_sublist: "py_in p s \<longleftrightarrow> sublist p s"
  by (induction s) (simp_all add: sublist_Cons_right)

lemma length_lower [simp]: "length (lower s) = length s"
  by (simp add: lower_def)

lemma lower_append: "lower (a @ b) = lower a @ lower b"
  by (simp add: lower_def)

lemma sublist_lower: "sublist p s \<Longrightarrow> sublist (lower p) (lower s)"
  by (metis sublist_def lower_append)

lemma lower_hulls_wife: "lower hulls_wife = hulls_wife"
  by (simp add: hulls_wife_def lower_def lower_char_def)

lemma lower_patterns: "map (map lower \<circ> fst) unification_map = map fst unification_map"
  by (simp add: unification_map_def lower_def lower_char_def)

lemma lower_pattern_id:
  assumes "(ps, d) \<in> set unification_map" and "p \<in> set ps"
  shows "lower p = p"
proof -
  have "\<forall>r\<in>set unification_map. map lower (fst r) = fst r"
    using lower_patterns by simp
  with assms(1) have "map lower ps = ps" by fastforce
  with assms(2) show ?thesis
    using map_eq_conv [of lower ps "\<lambda>x. x"] by simp
qed

lemma lower_displays: "map (lower \<circ> snd) unification_map =
  [''sullivan'', ''deb'', ''diana'', ''kyo'', ''fmr president'', ''pluribus'', ''aislinn'',
   ''kayla'', ''long'', ''james hersey'', ''kearsley'', ''zimmerman'', ''toward'', ''nord'',
   ''molhoj'', ''posting'', ''iron smith'', ''pickle hersey'', ''ducky'', ''marks'', ''hull'',
   ''mccarthy'', ''loz'', ''hoffman'', ''bloodshed'', ''miller'', ''watluhum'', ''derek'']"
  by code_simp

lemma match_patterns_iff:
  "match_patterns ps s \<longleftrightarrow> (\<exists>p\<in>set ps. sublist (lower p) s)"
  by (induction ps) (simp_all add: py_in_sublist)

lemma scan_rules_None_iff:
  "scan_rules rs s = None \<longleftrightarrow> (\<forall>r\<in>set rs. \<not> match_patterns (fst r) s)"
  by (induction rs s rule: scan_rules.induct) auto

lemma scan_rules_first:
  "i < length rs \<Longrightarrow> match_patterns (fst (rs ! i)) s \<Longrightarrow>
   \<forall>j<i. \<not> match_patterns (fst (rs ! j)) s \<Longrightarrow>
   scan_rules rs s = Some (snd (rs ! i))"
proof (induction rs arbitrary: i)
  case Nil
  then show ?case by simp
next
  case (Cons r rs)
  obtain ps d where r: "r = (ps, d)" by (cases r)
  show ?case
  proof (cases i)
    case 0
    with Cons.prems r show ?thesis by simp
  next
    case (Suc k)
    from Cons.prems(3) Suc have "\<not> match_patterns ps s"
      using r by fastforce
    moreover from Cons.prems(3) Suc have "\<forall>j<k. \<not> match_patterns (fst (rs ! j)) s"
      by fastforce
    ultimately show ?thesis
      using Cons.IH [of k] Cons.prems(1,2) Suc r by simp
  qed
qed

lemma scan_rules_Some_mem: "scan_rules rs s = Some d \<Longrightarrow> d \<in> snd ` set rs"
  by (induction rs s rule: scan_rules.induct) (auto split: if_splits)

lemma unify_name_cases:
  "unify_name n = n \<or> unify_name n \<in> snd ` set unification_map"
  by (auto simp: unify_name_def Let_def dest: scan_rules_Some_mem split: option.splits)

lemma display_fixed: "list_all (\<lambda>d. unify_name d = d) (map snd unification_map)"
  using lower_displays lower_patterns
  by (simp add: unify_name_def hulls_wife_def unification_map_def)

lemma display_no_hulls_wife:
  "list_all (\<lambda>d. \<not> py_in hulls_wife d) (map snd unification_map)"
  by (simp add: hulls_wife_def unification_map_def)

subsection \<open>The claims\<close>

text \<open>
  C1. For a name whose lowercased form does not contain "hull's wife": if the lowercased
  name contains a pattern of the rule at position \<open>i\<close> of the table and no pattern
  of any rule before it, \<open>unify_name\<close> returns the display name of rule \<open>i\<close>; if it
  contains no pattern of any rule, \<open>unify_name\<close> returns the name unchanged.
\<close>

theorem unify_first_match:
  assumes "\<not> sublist hulls_wife (lower name)"
  shows "(i < length unification_map \<and>
          (\<exists>p\<in>set (fst (unification_map ! i)). sublist p (lower name)) \<and>
          (\<forall>j<i. \<forall>p\<in>set (fst (unification_map ! j)). \<not> sublist p (lower name))
          \<longrightarrow> unify_name name = snd (unification_map ! i))
       \<and> ((\<forall>r\<in>set unification_map. \<forall>p\<in>set (fst r). \<not> sublist p (lower name))
          \<longrightarrow> unify_name name = name)"
proof -
  have pat: "match_patterns (fst r) s \<longleftrightarrow> (\<exists>p\<in>set (fst r). sublist p s)"
    if "r \<in> set unification_map" for r s
  proof -
    have "lower p = p" if "p \<in> set (fst r)" for p
      using lower_pattern_id [of "fst r" "snd r" p] that \<open>r \<in> set unification_map\<close> by simp
    then show ?thesis by (auto simp: match_patterns_iff)
  qed
  have nohw: "\<not> py_in hulls_wife (lower name)"
    using assms by (simp add: py_in_sublist)
  have first: "unify_name name = snd (unification_map ! i)"
    if i: "i < length unification_map"
      and m: "\<exists>p\<in>set (fst (unification_map ! i)). sublist p (lower name)"
      and e: "\<forall>j<i. \<forall>p\<in>set (fst (unification_map ! j)). \<not> sublist p (lower name)"
  proof -
    have "match_patterns (fst (unification_map ! i)) (lower name)"
      using pat [of "unification_map ! i"] i m by simp
    moreover have "\<forall>j<i. \<not> match_patterns (fst (unification_map ! j)) (lower name)"
    proof (intro allI impI)
      fix j assume "j < i"
      with i have "unification_map ! j \<in> set unification_map" by simp
      from pat [OF this] e \<open>j < i\<close> show "\<not> match_patterns (fst (unification_map ! j)) (lower name)"
        by blast
    qed
    ultimately have "scan_rules unification_map (lower name) = Some (snd (unification_map ! i))"
      using i by (rule_tac scan_rules_first)
    with nohw show ?thesis by (simp add: unify_name_def)
  qed
  have none: "unify_name name = name"
    if "\<forall>r\<in>set unification_map. \<forall>p\<in>set (fst r). \<not> sublist p (lower name)"
  proof -
    have "\<forall>r\<in>set unification_map. \<not> match_patterns (fst r) (lower name)"
      using that pat by blast
    then have "scan_rules unification_map (lower name) = None"
      by (simp add: scan_rules_None_iff)
    with nohw show ?thesis by (simp add: unify_name_def)
  qed
  from first none show ?thesis by blast
qed


theorem unify_first_match_witness:
  "unify_name ''Deb H.'' = ''Deb'' \<and> unify_name ''Mr. Alice'' = ''Mr. Alice''"
proof -
  have l1: "lower ''Deb H.'' = ''deb h.''" by code_simp
  have l2: "lower ''Mr. Alice'' = ''mr. alice''" by code_simp
  have h1: "\<not> sublist hulls_wife (lower ''Deb H.'')"
    unfolding l1 by (simp add: py_in_sublist [symmetric] hulls_wife_def)
  have h2: "\<not> sublist hulls_wife (lower ''Mr. Alice'')"
    unfolding l2 by (simp add: py_in_sublist [symmetric] hulls_wife_def)
  have a: "Suc 0 < length unification_map \<and>
      (\<exists>p\<in>set (fst (unification_map ! Suc 0)). sublist p (lower ''Deb H.'')) \<and>
      (\<forall>j<Suc 0. \<forall>p\<in>set (fst (unification_map ! j)). \<not> sublist p (lower ''Deb H.''))"
    unfolding l1 by (simp add: py_in_sublist [symmetric] unification_map_def)
  have b: "\<forall>r\<in>set unification_map. \<forall>p\<in>set (fst r). \<not> sublist p (lower ''Mr. Alice'')"
    unfolding l2 by (simp add: py_in_sublist [symmetric] unification_map_def)
  have "unify_name ''Deb H.'' = snd (unification_map ! Suc 0)"
    using unify_first_match [OF h1, of "Suc 0"] a by blast
  moreover have "unify_name ''Mr. Alice'' = ''Mr. Alice''"
    using unify_first_match [OF h2, of 0] b by blast
  ultimately show ?thesis by (simp add: unification_map_def)
qed

text \<open>
  C2. A name whose lowercased form contains "hull's wife" is returned unchanged, and the
  result is not \<open>Hull\<close>.
\<close>

theorem unify_hulls_wife:
  assumes "sublist hulls_wife (lower N)"
  shows "unify_name N = N \<and> unify_name N \<noteq> ''Hull''"
proof
  show same: "unify_name N = N"
    using assms by (simp add: unify_name_def py_in_sublist)
  have "length hulls_wife \<le> length N"
    using sublist_length_le [OF assms] by simp
  then have "N \<noteq> ''Hull''" by (auto simp: hulls_wife_def)
  with same show "unify_name N \<noteq> ''Hull''" by simp
qed

theorem unify_hulls_wife_witness:
  "sublist hulls_wife (lower ''Hull's WIFE Jane'') \<and>
   unify_name ''Hull's WIFE Jane'' = ''Hull's WIFE Jane'' \<and>
   unify_name ''Hull's WIFE Jane'' \<noteq> ''Hull''"
proof -
  have l: "lower ''Hull's WIFE Jane'' = ''hull's wife jane''" by code_simp
  have h: "sublist hulls_wife (lower ''Hull's WIFE Jane'')"
    unfolding l by (simp add: py_in_sublist [symmetric] hulls_wife_def)
  show ?thesis using h unify_hulls_wife [OF h] by simp
qed

text \<open>
  C3, as stated: a name containing the literal "hull's wife" skips only the \<open>hull\<close> rule
  and is still unified by another rule whose pattern it contains. The code returns such
  a name before the rule loop starts: \<open>hull's wife Miller\<close> contains the pattern of the
  \<open>Miller\<close> rule and comes back unchanged.
\<close>

theorem unify_falls_through_counterexample:
  "sublist hulls_wife ''hull's wife Miller'' \<and>
   ([''miller''], ''Miller'') \<in> set unification_map \<and>
   sublist ''miller'' (lower ''hull's wife Miller'') \<and>
   unify_name ''hull's wife Miller'' = ''hull's wife Miller'' \<and>
   unify_name ''hull's wife Miller'' \<noteq> ''Miller''"
proof -
  have l: "lower ''hull's wife Miller'' = ''hull's wife miller''" by code_simp
  have "unify_name ''hull's wife Miller'' = ''hull's wife Miller''"
    by (simp add: unify_name_def l hulls_wife_def)
  moreover have "sublist hulls_wife ''hull's wife Miller''"
    by (simp add: py_in_sublist [symmetric] hulls_wife_def)
  moreover have "sublist ''miller'' (lower ''hull's wife Miller'')"
    unfolding l by (simp add: py_in_sublist [symmetric])
  moreover have "([''miller''], ''Miller'') \<in> set unification_map"
    by (simp add: unification_map_def)
  ultimately show ?thesis by simp
qed

text \<open>
  C3, amended: a name containing the literal "hull's wife" skips every rule of the
  table, not only the \<open>hull\<close> rule: it is returned unchanged, and the result is the
  display name of no rule, whatever other patterns the name contains.
\<close>

theorem unify_hulls_wife_skips_all_rules:
  assumes "sublist hulls_wife N"
  shows "unify_name N = N \<and> (\<forall>r\<in>set unification_map. unify_name N \<noteq> snd r)"
proof
  have "sublist hulls_wife (lower N)"
    using sublist_lower [OF assms] by (simp add: lower_hulls_wife)
  then show same: "unify_name N = N"
    by (simp add: unify_name_def py_in_sublist)
  have "\<forall>d\<in>set (map snd unification_map). \<not> sublist hulls_wife d"
    using display_no_hulls_wife by (simp add: list_all_iff py_in_sublist)
  with assms have "\<forall>r\<in>set unification_map. N \<noteq> snd r" by auto
  with same show "\<forall>r\<in>set unification_map. unify_name N \<noteq> snd r" by simp
qed

theorem unify_hulls_wife_skips_all_rules_witness:
  "sublist hulls_wife ''hull's wife Miller'' \<and>
   unify_name ''hull's wife Miller'' = ''hull's wife Miller'' \<and>
   unify_name ''hull's wife Miller'' \<noteq> snd ([''miller''], ''Miller'')"
proof -
  have h: "sublist hulls_wife ''hull's wife Miller''"
    by (simp add: py_in_sublist [symmetric] hulls_wife_def)
  have m: "([''miller''], ''Miller'') \<in> set unification_map"
    by (simp add: unification_map_def)
  show ?thesis using h m unify_hulls_wife_skips_all_rules [OF h] by blast
qed

text \<open>
  C9. \<open>unify_name\<close> is idempotent, and every display name of the rule table is mapped
  to itself.
\<close>

theorem unify_idempotent:
  "unify_name (unify_name N) = unify_name N \<and>
   (\<forall>r\<in>set unification_map. unify_name (snd r) = snd r)"
proof
  have fixed: "\<forall>d\<in>snd ` set unification_map. unify_name d = d"
    using display_fixed by (simp add: list_all_iff)
  then show "unify_name (unify_name N) = unify_name N"
    using unify_name_cases [of N] by auto
  from fixed show "\<forall>r\<in>set unification_map. unify_name (snd r) = snd r" by simp
qed

theorem unify_idempotent_witness:
  "unify_name (unify_name ''Old Hull'') = unify_name ''Old Hull'' \<and>
   unify_name ''Old Hull'' = ''Hull'' \<and>
   unify_name (snd ([''pickle hersey''], ''Pickle Hersey'')) = ''Pickle Hersey''"
proof -
  have m: "([''pickle hersey''], ''Pickle Hersey'') \<in> set unification_map"
    by (simp add: unification_map_def)
  have u: "unify_name ''Old Hull'' = ''Hull''" by code_simp
  show ?thesis using unify_idempotent [of "''Old Hull''"] m u by fastforce
qed

text \<open>
  C10. The result of \<open>unify_name\<close> is the input itself or a display name of the rule
  table.
\<close>

theorem unify_range:
  "unify_name N = N \<or> unify_name N \<in> snd ` set unification_map"
  by (auto simp: unify_name_def Let_def dest: scan_rules_Some_mem split: option.splits)

theorem unify_range_witness:
  "unify_name ''Sullivan Jr.'' = ''Sullivan Jr.'' \<or>
   unify_name ''Sullivan Jr.'' \<in> snd ` set unification_map"
  using unify_range [of "''Sullivan Jr.''"] by simp


section \<open>Properties of the aggregation and ranking pipeline\<close>

subsection \<open>The sort and the groups\<close>

lemma filter_concat_key:
  "distinct ks \<Longrightarrow> (\<forall>k'\<in>set ks. \<forall>x\<in>set (g k'). key' x = k') \<Longrightarrow>
   filter (\<lambda>x. key' x = k) (concat (map g ks)) = (if k \<in> set ks then g k else [])"
proof (induction ks)
  case Nil
  then show ?case by simp
next
  case (Cons a ks)
  have a: "filter (\<lambda>x. key' x = k) (g a) = (if a = k then g a else [])"
    using Cons.prems(2) by (auto simp: filter_empty_conv)
  from Cons show ?case by (auto simp: a)
qed

lemma filter_groupby_apply:
  assumes "\<And>k. \<forall>x\<in>set (f (filter (\<lambda>r. key r = k) df)). key' x = k"
  shows "filter (\<lambda>x. key' x = k) (groupby_apply key f df) =
         (if k \<in> key ` set df then f (filter (\<lambda>r. key r = k) df) else [])"
  unfolding groupby_apply_def
  using filter_concat_key [of "sort (remdups (map key df))" "\<lambda>k. f (filter (\<lambda>r. key r = k) df)" key' k]
    assms by simp

lemma set_groupby_apply:
  "set (groupby_apply key f df) = (\<Union>k\<in>key ` set df. set (f (filter (\<lambda>r. key r = k) df)))"
  by (simp add: groupby_apply_def)

lemma mset_concat_filter_keys:
  "distinct ks \<Longrightarrow>
   mset (concat (map (\<lambda>k. filter (\<lambda>r. key r = k) df) ks)) = mset (filter (\<lambda>r. key r \<in> set ks) df)"
proof (induction ks)
  case Nil
  then show ?case by simp
next
  case (Cons a ks)
  have "mset (filter (\<lambda>r. key r = a) df) + mset (filter (\<lambda>r. key r \<in> set ks) df)
        = mset (filter (\<lambda>r. key r \<in> set (a # ks)) df)"
    using Cons.prems by (induction df) auto
  with Cons show ?case by simp
qed


lemma rearranges_input_order: "rearranges input_order"
  by (simp add: rearranges_def input_order_def)

lemma sort_values_mset: "rearranges ties \<Longrightarrow> mset (sort_values ties xs) = mset xs"
  by (simp add: rearranges_def sort_values_def)

lemma sort_values_sorted:
  "sorted_wrt (\<lambda>a b. sint (Influence a) \<ge> sint (Influence b)) (sort_values ties xs)"
proof -
  have "sorted (map (\<lambda>r. - sint (Influence r)) (sort_values ties xs))"
    unfolding sort_values_def by (rule sorted_sort_key)
  then show ?thesis by (simp add: sorted_map)
qed

lemma sort_values_length: "rearranges ties \<Longrightarrow> length (sort_values ties xs) = length xs"
  using sort_values_mset [of ties xs] by (metis size_mset)

lemma sort_values_set: "rearranges ties \<Longrightarrow> set (sort_values ties xs) = set xs"
  using sort_values_mset [of ties xs] by (metis set_mset_mset)

lemma truncate_daily_ranks: "map row.truncate (compute_daily_ranks ties g) = sort_values ties g"
proof -
  have "map row.truncate (map2 (\<lambda>r k. \<lparr>Date = Date r, UnifiedUser = UnifiedUser r,
          Influence = Influence r, Rank = k\<rparr>) xs ks) = xs"
    if "length xs = length ks" for xs :: "row list" and ks :: "nat list"
    using that by (induction xs ks rule: list_induct2) (simp_all add: row.truncate_def)
  moreover have "length (sort_values ties g) = length [1..<length (sort_values ties g) + 1]" by (simp del: upt_Suc)
  ultimately show ?thesis
    unfolding compute_daily_ranks_def Let_def by blast
qed

lemma rank_daily_ranks: "map Rank (compute_daily_ranks ties g) = [1..<length (sort_values ties g) + 1]"
proof -
  have "map Rank (map2 (\<lambda>r k. \<lparr>Date = Date r, UnifiedUser = UnifiedUser r,
          Influence = Influence r, Rank = k\<rparr>) xs ks) = ks"
    if "length xs = length ks" for xs :: "row list" and ks :: "nat list"
    using that by (induction xs ks rule: list_induct2) simp_all
  moreover have "length (sort_values ties g) = length [1..<length (sort_values ties g) + 1]" by (simp del: upt_Suc)
  ultimately show ?thesis
    unfolding compute_daily_ranks_def Let_def by blast
qed

lemma length_daily_ranks: "length (compute_daily_ranks ties g) = length (sort_values ties g)"
  using rank_daily_ranks [of ties g] by (metis length_map length_upt add_diff_cancel_right')

lemma Date_daily_ranks:
  assumes "rearranges ties" and "x \<in> set (compute_daily_ranks ties g)"
  shows "\<exists>r\<in>set g. Date x = Date r \<and> UnifiedUser x = UnifiedUser r \<and> Influence x = Influence r"
proof -
  from assms(2) have "row.truncate x \<in> set (map row.truncate (compute_daily_ranks ties g))"
    by simp
  then have "row.truncate x \<in> set g"
    using assms(1) by (simp add: truncate_daily_ranks sort_values_set)
  then show ?thesis by (force simp: row.truncate_def)
qed

lemma load_partition:
  assumes "rearranges ties"
  shows "filter (\<lambda>r. Date r = D) (load_and_preprocess_data ties csv) =
         compute_daily_ranks ties (filter (\<lambda>r. Date r = D) (groupby_sum (map with_unified_user csv)))"
proof -
  let ?grouped = "groupby_sum (map with_unified_user csv)"
  have keyed: "\<forall>x\<in>set (compute_daily_ranks ties (filter (\<lambda>r. Date r = k) ?grouped)). Date x = k" for k
    using Date_daily_ranks [OF assms] by fastforce
  have eq: "filter (\<lambda>r. Date r = D) (load_and_preprocess_data ties csv) =
        (if D \<in> Date ` set ?grouped
         then compute_daily_ranks ties (filter (\<lambda>r. Date r = D) ?grouped) else [])"
    unfolding load_and_preprocess_data_def Let_def
    by (rule filter_groupby_apply) (rule keyed)
  show ?thesis
  proof (cases "D \<in> Date ` set ?grouped")
    case True
    with eq show ?thesis by simp
  next
    case False
    then have "filter (\<lambda>r. Date r = D) ?grouped = []"
      by (auto simp: filter_empty_conv)
    moreover have "compute_daily_ranks ties [] = []"
      using length_daily_ranks [of ties "[]"] sort_values_length [OF assms, of "[]"] by simp
    ultimately show ?thesis using eq False by simp
  qed
qed

text \<open>
  Within a date the rows of the aggregated output are the aggregated rows of that
  date in descending order of influence, with the ranks 1, 2, 3, ... in that order.
  Which of two rows of equal influence comes first is left open by \<open>ties\<close>.
\<close>

lemma daily_ranks_descending:
  assumes "rearranges ties"
  shows "sorted_wrt (\<lambda>a b. sint (Influence a) \<ge> sint (Influence b))
           (filter (\<lambda>r. Date r = D) (load_and_preprocess_data ties csv))
       \<and> map Rank (filter (\<lambda>r. Date r = D) (load_and_preprocess_data ties csv)) =
           [1..<length (filter (\<lambda>r. Date r = D) (load_and_preprocess_data ties csv)) + 1]
       \<and> mset (map row.truncate (filter (\<lambda>r. Date r = D) (load_and_preprocess_data ties csv))) =
           mset (filter (\<lambda>r. Date r = D) (groupby_sum (map with_unified_user csv)))"
proof -
  let ?g = "filter (\<lambda>r. Date r = D) (groupby_sum (map with_unified_user csv))"
  let ?part = "compute_daily_ranks ties ?g"
  have "sorted_wrt (\<lambda>a b. sint (Influence a) \<ge> sint (Influence b)) (map row.truncate ?part)"
    using sort_values_sorted by (simp add: truncate_daily_ranks)
  then have "sorted_wrt (\<lambda>a b. sint (Influence a) \<ge> sint (Influence b)) ?part"
    by (simp add: sorted_wrt_map row.truncate_def)
  moreover have "map Rank ?part = [1..<length ?part + 1]"
    by (simp add: rank_daily_ranks length_daily_ranks)
  moreover have "mset (map row.truncate ?part) = mset ?g"
    using sort_values_mset [OF assms] by (simp add: truncate_daily_ranks)
  ultimately show ?thesis
    unfolding load_partition [OF assms] by blast
qed

subsection \<open>Counting and summing the groups\<close>

lemma keys_groupby_sum:
  "map (\<lambda>r. (Date r, UnifiedUser r)) (groupby_sum df) =
   sort (remdups (map (\<lambda>r. (Date r, UnifiedUser r)) df))"
  by (simp add: groupby_sum_def comp_def case_prod_beta)

lemma filter_Date_groupby_sum:
  "filter (\<lambda>r. Date r = D) (groupby_sum df) =
   map (\<lambda>(d, u). \<lparr>Date = d, UnifiedUser = u,
          Influence = sum_list (map Influence (filter (\<lambda>r. Date r = d \<and> UnifiedUser r = u) df))\<rparr>)
       (filter (\<lambda>k. fst k = D) (sort (remdups (map (\<lambda>r. (Date r, UnifiedUser r)) df))))"
  by (simp add: groupby_sum_def filter_map comp_def case_prod_beta)

lemma length_filter_Date_groupby_sum:
  "length (filter (\<lambda>r. Date r = D) (groupby_sum df)) =
   card (UnifiedUser ` {r \<in> set df. Date r = D})"
proof -
  let ?keys = "sort (remdups (map (\<lambda>r. (Date r, UnifiedUser r)) df))"
  have "length (filter (\<lambda>r. Date r = D) (groupby_sum df)) = length (filter (\<lambda>k. fst k = D) ?keys)"
    by (simp add: filter_Date_groupby_sum)
  also have "\<dots> = card (set (filter (\<lambda>k. fst k = D) ?keys))"
    by (rule distinct_card [symmetric]) simp
  also have "set (filter (\<lambda>k. fst k = D) ?keys) = Pair D ` UnifiedUser ` {r \<in> set df. Date r = D}"
    by auto
  also have "card \<dots> = card (UnifiedUser ` {r \<in> set df. Date r = D})"
    by (rule card_image) (simp add: inj_on_def)
  finally show ?thesis .
qed

lemma users_on_date:
  "UnifiedUser ` {r \<in> set (map with_unified_user csv). Date r = D} =
   (\<lambda>r. unify_name (csv_User r)) ` {r \<in> set csv. csv_Date r = D}"
proof -
  have "{r \<in> set (map with_unified_user csv). Date r = D} =
        with_unified_user ` {r \<in> set csv. csv_Date r = D}"
    by (auto simp: with_unified_user_def)
  then show ?thesis by (simp add: image_image with_unified_user_def)
qed




lemma example_loaded:
  "load_and_preprocess_data input_order example_csv =
     [\<lparr>Date = 1, UnifiedUser = ''Deb'', Influence = 20, Rank = 1\<rparr>,
      \<lparr>Date = 1, UnifiedUser = ''Sullivan'', Influence = 15, Rank = 2\<rparr>]"
  by code_simp

text \<open>
  C5. For every date, the ranks of the rows of that date in the aggregated output are a
  permutation of 1..K, where K is the number of distinct unified users with a raw row
  on that date.
\<close>

theorem daily_ranks_permutation:
  assumes "rearranges ties"
  shows "mset (map Rank (filter (\<lambda>r. Date r = D) (load_and_preprocess_data ties csv))) =
         mset [1..<card ((\<lambda>r. unify_name (csv_User r)) ` {r \<in> set csv. csv_Date r = D}) + 1]"
proof -
  let ?g = "filter (\<lambda>r. Date r = D) (groupby_sum (map with_unified_user csv))"
  have "map Rank (compute_daily_ranks ties ?g) = [1..<length ?g + 1]"
    by (simp only: rank_daily_ranks sort_values_length [OF assms])
  then show ?thesis
    by (simp only: load_partition [OF assms] length_filter_Date_groupby_sum users_on_date)
qed

theorem daily_ranks_permutation_witness:
  "rearranges input_order \<and>
   mset (map Rank (filter (\<lambda>r. Date r = 1)
          (load_and_preprocess_data input_order example_csv))) =
   mset [1..<card ((\<lambda>r. unify_name (csv_User r)) ` {r \<in> set example_csv. csv_Date r = 1}) + 1] \<and>
   map Rank (filter (\<lambda>r. Date r = 1)
          (load_and_preprocess_data input_order example_csv)) = [1, 2]"
proof (intro conjI)
  show ok: "rearranges input_order"
    by (rule rearranges_input_order)
  show "mset (map Rank (filter (\<lambda>r. Date r = 1)
          (load_and_preprocess_data input_order example_csv))) =
        mset [1..<card ((\<lambda>r. unify_name (csv_User r)) ` {r \<in> set example_csv. csv_Date r = 1}) + 1]"
    by (rule daily_ranks_permutation [OF ok])
  show "map Rank (filter (\<lambda>r. Date r = 1)
          (load_and_preprocess_data input_order example_csv)) = [1, 2]"
    by (simp add: example_loaded)
qed







section \<open>Properties of the grid densifier\<close>

subsection \<open>Auxiliary facts\<close>

lemma set_unique [simp]: "set (unique xs) = set xs"
  by (induction xs rule: unique.induct) auto

lemma distinct_unique [simp]: "distinct (unique xs)"
  by (induction xs rule: unique.induct) auto

lemma from_product_eq: "from_product xs ys = List.product xs ys"
  by (induction xs) (simp_all add: from_product_def)

text \<open>On an empty frame \<open>date_range\<close> raises, and so does the densifier.\<close>

lemma create_empty: "create_all_dates_user_df [] = Inl ValueError"
  by (simp add: create_all_dates_user_df_def date_range_def column_min_def column_max_def)

lemma create_nonempty:
  assumes "df \<noteq> []"
  shows "create_all_dates_user_df df =
         Inr (groupby_apply m_Date fill_missing
               (merge_left (from_product [Min (Date ` set df)..Max (Date ` set df)]
                              (unique (map UnifiedUser df))) df))"
  using assms
  by (simp add: create_all_dates_user_df_def date_range_def column_min_def column_max_def)

lemma mset_map_groupby_apply:
  assumes "\<And>g. mset (map h (f g)) = image_mset h' (mset g)"
  shows "mset (map h (groupby_apply key f df)) = image_mset h' (mset df)"
proof -
  have step: "mset (map h (concat (map (\<lambda>k. f (G k)) ks))) = image_mset h' (mset (concat (map G ks)))"
    for G ks
    using assms by (induction ks) simp_all
  let ?ks = "sort (remdups (map key df))"
  have "mset (map h (groupby_apply key f df)) =
        image_mset h' (mset (concat (map (\<lambda>k. filter (\<lambda>r. key r = k) df) ?ks)))"
    unfolding groupby_apply_def by (rule step)
  also have "mset (concat (map (\<lambda>k. filter (\<lambda>r. key r = k) df) ?ks)) =
             mset (filter (\<lambda>r. key r \<in> set ?ks) df)"
    by (rule mset_concat_filter_keys) simp
  also have "filter (\<lambda>r. key r \<in> set ?ks) df = df"
    by (simp add: filter_id_conv)
  finally show ?thesis .
qed

text \<open>The frame \<open>load_and_preprocess_data\<close> returns has one row per date and user.\<close>

lemma load_keys_distinct:
  assumes "rearranges ties"
  shows "distinct (map (\<lambda>r. (Date r, UnifiedUser r)) (load_and_preprocess_data ties csv))"
proof -
  let ?grouped = "groupby_sum (map with_unified_user csv)"
  let ?key = "\<lambda>r::ranked_row. (Date r, UnifiedUser r)"
  let ?key' = "\<lambda>r::row. (Date r, UnifiedUser r)"
  have A: "mset (map ?key (compute_daily_ranks ties g)) = image_mset ?key' (mset g)" for g
  proof -
    have "map ?key (compute_daily_ranks ties g) =
          map ?key' (map row.truncate (compute_daily_ranks ties g))"
      by (simp add: row.truncate_def)
    then have "map ?key (compute_daily_ranks ties g) = map ?key' (sort_values ties g)"
      by (simp only: truncate_daily_ranks)
    then have "mset (map ?key (compute_daily_ranks ties g)) = image_mset ?key' (mset (sort_values ties g))"
      by simp
    then show ?thesis
      by (simp only: sort_values_mset [OF assms])
  qed
  have "mset (map ?key (groupby_apply Date (compute_daily_ranks ties) ?grouped)) =
        image_mset ?key' (mset ?grouped)"
    by (rule mset_map_groupby_apply) (rule A)
  then have "mset (map ?key (load_and_preprocess_data ties csv)) = mset (map ?key' ?grouped)"
    by (simp add: load_and_preprocess_data_def)
  moreover have "distinct (map ?key' ?grouped)"
    by (simp only: keys_groupby_sum) simp
  ultimately show ?thesis by (rule mset_eq_imp_distinct_iff [THEN iffD2])
qed

lemma filter_key_distinct:
  "distinct (map key df) \<Longrightarrow>
   filter (\<lambda>r. key r = k) df = [] \<or> (\<exists>r. filter (\<lambda>r. key r = k) df = [r])"
  by (induction df) (auto simp: filter_empty_conv image_iff)

lemma keys_merge_left:
  assumes "distinct (map (\<lambda>r. (Date r, UnifiedUser r)) df)"
  shows "map (\<lambda>m. (m_Date m, m_UnifiedUser m)) (merge_left full df) = full"
proof -
  have cell: "map (\<lambda>m. (m_Date m, m_UnifiedUser m)) (matched_rows na d u df) = [(d, u)]" for na d u
  proof -
    have "filter (\<lambda>r. Date r = d \<and> UnifiedUser r = u) df = [] \<or>
          (\<exists>r. filter (\<lambda>r. Date r = d \<and> UnifiedUser r = u) df = [r])"
      using filter_key_distinct [OF assms, of "(d, u)"] by simp
    then show ?thesis by (auto simp: matched_rows_def)
  qed
  have "map (\<lambda>m. (m_Date m, m_UnifiedUser m))
          (concat (map (\<lambda>(d, u). matched_rows na d u df) full)) = full" for na
    by (induction full) (auto simp: cell)
  then show ?thesis by (simp add: merge_left_def Let_def)
qed

lemma count_keys: "count (mset (map k xs)) a = length (filter (\<lambda>x. k x = a) xs)"
  by (induction xs) auto

lemma keys_fill_missing:
  "map (\<lambda>x. (d_Date x, d_UnifiedUser x)) (fill_missing g) = map (\<lambda>m. (m_Date m, m_UnifiedUser m)) g"
  by (simp add: fill_missing_def Let_def comp_def)

lemma set_fill_missing:
  "set (fill_missing g) =
   (\<lambda>m. \<lparr>d_Date = m_Date m, d_UnifiedUser = m_UnifiedUser m,
          d_Influence = (case m_Influence m of None \<Rightarrow> 0 | Some v \<Rightarrow> v),
          d_Rank = (case m_Rank m of None \<Rightarrow> series_max (map m_Rank g) | Some k \<Rightarrow> Some k)\<rparr>) ` set g"
  by (simp add: fill_missing_def Let_def)

lemma set_map_filter_id: "set (List.map_filter (\<lambda>v. v) col) = {k. Some k \<in> set col}"
  by (induction col) (auto split: option.splits)

lemma series_max_eq:
  "series_max col = (if {k. Some k \<in> set col} = {} then None else Some (Max {k. Some k \<in> set col}))"
proof (cases "List.map_filter (\<lambda>v. v) col")
  case Nil
  then have "{k. Some k \<in> set col} = {}"
    using set_map_filter_id [of col] by simp
  with Nil show ?thesis by (simp add: series_max_def)
next
  case (Cons k ks)
  then have "{k. Some k \<in> set col} = set (k # ks)"
    using set_map_filter_id [of col] by simp
  with Cons show ?thesis by (simp add: series_max_def)
qed

lemma set_merge_cell:
  "set (case filter P df of [] \<Rightarrow> [miss] | ms \<Rightarrow> map conv ms) =
   (if \<forall>r\<in>set df. \<not> P r then {miss} else conv ` {r \<in> set df. P r})"
proof (cases "filter P df")
  case Nil
  then show ?thesis by (simp add: filter_empty_conv)
next
  case (Cons a l)
  then have "a \<in> set (filter P df)" by simp
  then have ex: "\<not> (\<forall>r\<in>set df. \<not> P r)" by auto
  have "set (case filter P df of [] \<Rightarrow> [miss] | ms \<Rightarrow> map conv ms) = conv ` set (filter P df)"
    by (simp add: Cons)
  with ex show ?thesis by auto
qed

lemma has_unmatched_iff:
  "has_unmatched full df \<longleftrightarrow>
   (\<exists>d u. (d, u) \<in> set full \<and> (\<forall>r\<in>set df. \<not> (Date r = d \<and> UnifiedUser r = u)))"
  by (auto simp: has_unmatched_def list_ex_iff filter_empty_conv)

lemma excess_bits_small: "m < 2 ^ 53 \<Longrightarrow> excess_bits m = 0"
  by (simp add: excess_bits_def eval_nat_numeral)

lemma float64_of_int_small:
  assumes "\<bar>n\<bar> \<le> 2 ^ 53"
  shows "float64_of_int n = n"
proof (cases "\<bar>n\<bar> < 2 ^ 53")
  case True
  then show ?thesis
    by (simp add: float64_of_int_def Let_def excess_bits_small mult_sgn_abs)
next
  case False
  with assms have "n = 2 ^ 53 \<or> n = - (2 ^ 53)" by (simp add: abs_if split: if_splits)
  moreover have "float64_of_int (2 ^ 53) = 2 ^ 53" by code_simp
  moreover have "float64_of_int (- (2 ^ 53)) = - (2 ^ 53)" by code_simp
  ultimately show ?thesis by auto
qed

lemma merged_value_small: "\<bar>n\<bar> \<le> 2 ^ 53 \<Longrightarrow> merged_value na n = n"
  by (simp add: merged_value_def float64_of_int_small)

lemma merged_value_complete: "merged_value False n = n"
  by (simp add: merged_value_def)

lemma in_matched_rows_iff:
  "m \<in> set (matched_rows na d u df) \<longleftrightarrow>
   ((\<forall>r\<in>set df. \<not> (Date r = d \<and> UnifiedUser r = u)) \<and>
     m = \<lparr>m_Date = d, m_UnifiedUser = u, m_Influence = None, m_Rank = None\<rparr>) \<or>
   (\<exists>r\<in>set df. Date r = d \<and> UnifiedUser r = u \<and>
     m = \<lparr>m_Date = d, m_UnifiedUser = u,
           m_Influence = Some (merged_value na (sint (Influence r))),
           m_Rank = Some (nat (merged_value na (int (Rank r))))\<rparr>)"
proof (cases "\<forall>r\<in>set df. \<not> (Date r = d \<and> UnifiedUser r = u)")
  case True
  then show ?thesis unfolding matched_rows_def set_merge_cell by auto
next
  case False
  then show ?thesis unfolding matched_rows_def set_merge_cell by (simp add: image_iff) blast
qed

lemma in_merge_left_iff:
  "m \<in> set (merge_left full df) \<longleftrightarrow>
   (\<exists>d u. (d, u) \<in> set full \<and> m \<in> set (matched_rows (has_unmatched full df) d u df))"
  by (auto simp: merge_left_def Let_def)

lemma ranks_of_merged_date:
  assumes cover: "\<forall>r\<in>set df. (Date r, UnifiedUser r) \<in> set full"
    and small: "\<forall>r\<in>set df. int (Rank r) \<le> 2 ^ 53"
  shows "{k. Some k \<in> set (map m_Rank (filter (\<lambda>m. m_Date m = d) (merge_left full df)))} =
         Rank ` {r \<in> set df. Date r = d}"
proof (intro equalityI subsetI)
  let ?na = "has_unmatched full df"
  fix k
  assume "k \<in> {k. Some k \<in> set (map m_Rank (filter (\<lambda>m. m_Date m = d) (merge_left full df)))}"
  then obtain m where m: "m \<in> set (merge_left full df)" "m_Date m = d" "m_Rank m = Some k"
    by auto
  from m(1) obtain d' u' where "m \<in> set (matched_rows ?na d' u' df)"
    unfolding in_merge_left_iff by blast
  then have "(m = \<lparr>m_Date = d', m_UnifiedUser = u', m_Influence = None, m_Rank = None\<rparr>) \<or>
     (\<exists>r\<in>set df. Date r = d' \<and> UnifiedUser r = u' \<and>
        m = \<lparr>m_Date = d', m_UnifiedUser = u',
              m_Influence = Some (merged_value ?na (sint (Influence r))),
              m_Rank = Some (nat (merged_value ?na (int (Rank r))))\<rparr>)"
    unfolding in_matched_rows_iff by blast
  then show "k \<in> Rank ` {r \<in> set df. Date r = d}"
  proof
    assume "m = \<lparr>m_Date = d', m_UnifiedUser = u', m_Influence = None, m_Rank = None\<rparr>"
    with m(3) show ?thesis by simp
  next
    assume "\<exists>r\<in>set df. Date r = d' \<and> UnifiedUser r = u' \<and>
        m = \<lparr>m_Date = d', m_UnifiedUser = u',
              m_Influence = Some (merged_value ?na (sint (Influence r))),
              m_Rank = Some (nat (merged_value ?na (int (Rank r))))\<rparr>"
    then obtain r where r: "r \<in> set df" "Date r = d'"
      "m = \<lparr>m_Date = d', m_UnifiedUser = u',
              m_Influence = Some (merged_value ?na (sint (Influence r))),
              m_Rank = Some (nat (merged_value ?na (int (Rank r))))\<rparr>"
      by blast
    from small r(1) have "merged_value ?na (int (Rank r)) = int (Rank r)"
      by (simp add: merged_value_small)
    with r(3) m(2,3) have "d' = d" "Rank r = k" by simp_all
    with r(1,2) show ?thesis by auto
  qed
next
  let ?na = "has_unmatched full df"
  fix k
  assume "k \<in> Rank ` {r \<in> set df. Date r = d}"
  then obtain r where r: "r \<in> set df" "Date r = d" "Rank r = k" by auto
  let ?m = "\<lparr>m_Date = d, m_UnifiedUser = UnifiedUser r,
             m_Influence = Some (merged_value ?na (sint (Influence r))),
             m_Rank = Some (nat (merged_value ?na (int (Rank r))))\<rparr>"
  from small r(1) have rk: "nat (merged_value ?na (int (Rank r))) = Rank r"
    by (simp add: merged_value_small)
  from cover r have "(d, UnifiedUser r) \<in> set full" by auto
  moreover from r(1,2) have "?m \<in> set (matched_rows ?na d (UnifiedUser r) df)"
    unfolding in_matched_rows_iff by blast
  ultimately have "?m \<in> set (merge_left full df)"
    unfolding in_merge_left_iff by blast
  then have "?m \<in> set (filter (\<lambda>m. m_Date m = d) (merge_left full df))" by simp
  then have "Some (Rank r) \<in> m_Rank ` set (filter (\<lambda>m. m_Date m = d) (merge_left full df))"
    by (rule rev_image_eqI) (simp add: rk)
  with r(3) show "k \<in> {k. Some k \<in> set (map m_Rank (filter (\<lambda>m. m_Date m = d) (merge_left full df)))}"
    by simp
qed

lemma in_dense_iff:
  "x \<in> set (groupby_apply m_Date fill_missing merged) \<longleftrightarrow>
   (\<exists>m\<in>set merged.
      x = \<lparr>d_Date = m_Date m, d_UnifiedUser = m_UnifiedUser m,
            d_Influence = (case m_Influence m of None \<Rightarrow> 0 | Some v \<Rightarrow> v),
            d_Rank = (case m_Rank m of
                        None \<Rightarrow> series_max (map m_Rank (filter (\<lambda>m'. m_Date m' = m_Date m) merged))
                      | Some k \<Rightarrow> Some k)\<rparr>)"
  (is "?L \<longleftrightarrow> ?R")
proof -
  define F where "F = (\<lambda>k (m::merged_row). \<lparr>d_Date = m_Date m, d_UnifiedUser = m_UnifiedUser m,
            d_Influence = (case m_Influence m of None \<Rightarrow> 0 | Some v \<Rightarrow> v),
            d_Rank = (case m_Rank m of
                        None \<Rightarrow> series_max (map m_Rank (filter (\<lambda>m'. m_Date m' = k) merged))
                      | Some k \<Rightarrow> Some k)\<rparr>)"
  have "?L \<longleftrightarrow> (\<exists>k\<in>m_Date ` set merged. x \<in> F k ` set (filter (\<lambda>m'. m_Date m' = k) merged))"
    unfolding set_groupby_apply set_fill_missing F_def by simp
  also have "\<dots> \<longleftrightarrow> (\<exists>k. \<exists>m\<in>set merged. m_Date m = k \<and> x = F k m)"
    by auto
  also have "\<dots> \<longleftrightarrow> (\<exists>m\<in>set merged. x = F (m_Date m) m)"
    by blast
  finally show ?thesis unfolding F_def .
qed

lemma example_df_ok:
  "example_df \<noteq> [] \<and> distinct (map (\<lambda>r. (Date r, UnifiedUser r)) example_df)"
  by (simp add: example_df_def)

lemma example_dense:
  "create_all_dates_user_df example_df =
     Inr [\<lparr>d_Date = 1, d_UnifiedUser = ''A'', d_Influence = 10, d_Rank = Some 1\<rparr>,
          \<lparr>d_Date = 1, d_UnifiedUser = ''B'', d_Influence = 5, d_Rank = Some 2\<rparr>,
          \<lparr>d_Date = 2, d_UnifiedUser = ''A'', d_Influence = 7, d_Rank = Some 1\<rparr>,
          \<lparr>d_Date = 2, d_UnifiedUser = ''B'', d_Influence = 0, d_Rank = Some 1\<rparr>,
          \<lparr>d_Date = 3, d_UnifiedUser = ''A'', d_Influence = 4, d_Rank = Some 2\<rparr>,
          \<lparr>d_Date = 3, d_UnifiedUser = ''B'', d_Influence = 9, d_Rank = Some 1\<rparr>]"
  by code_simp

subsection \<open>The claims\<close>

text \<open>
  C7. For a non-empty aggregated frame (one row per date and user), the densified frame
  holds exactly one row for every pair of a day between the least and the greatest
  date of the frame and a user of the frame, and no row for any other pair.
\<close>

theorem dense_grid_complete:
  assumes "df \<noteq> []" and "distinct (map (\<lambda>r. (Date r, UnifiedUser r)) df)"
  shows "\<exists>out. create_all_dates_user_df df = Inr out \<and>
           (\<forall>d u. length (filter (\<lambda>x. d_Date x = d \<and> d_UnifiedUser x = u) out) =
                  (if Min (Date ` set df) \<le> d \<and> d \<le> Max (Date ` set df) \<and>
                      u \<in> UnifiedUser ` set df then 1 else 0))"
proof -
  let ?full = "from_product [Min (Date ` set df)..Max (Date ` set df)] (unique (map UnifiedUser df))"
  let ?out = "groupby_apply m_Date fill_missing (merge_left ?full df)"
  let ?dkey = "\<lambda>x. (d_Date x, d_UnifiedUser x)"
  have dist: "distinct ?full"
    by (simp add: from_product_eq distinct_product)
  have "mset (map ?dkey ?out) =
        image_mset (\<lambda>m. (m_Date m, m_UnifiedUser m)) (mset (merge_left ?full df))"
    by (rule mset_map_groupby_apply) (simp add: keys_fill_missing)
  also have "\<dots> = mset (map (\<lambda>m. (m_Date m, m_UnifiedUser m)) (merge_left ?full df))"
    by simp
  also have "\<dots> = mset ?full"
    by (simp only: keys_merge_left [OF assms(2)])
  finally have keys: "mset (map ?dkey ?out) = mset ?full" .
  have "length (filter (\<lambda>x. d_Date x = d \<and> d_UnifiedUser x = u) ?out) =
        (if Min (Date ` set df) \<le> d \<and> d \<le> Max (Date ` set df) \<and>
            u \<in> UnifiedUser ` set df then 1 else 0)" for d u
  proof -
    have "length (filter (\<lambda>x. d_Date x = d \<and> d_UnifiedUser x = u) ?out) =
          length (filter (\<lambda>x. ?dkey x = (d, u)) ?out)"
      by simp
    also have "\<dots> = count (mset (map ?dkey ?out)) (d, u)"
      by (rule count_keys [symmetric])
    also have "\<dots> = (if (d, u) \<in> set ?full then 1 else 0)"
      using dist by (simp only: keys distinct_count_atmost_1)
    also have "(d, u) \<in> set ?full \<longleftrightarrow>
        Min (Date ` set df) \<le> d \<and> d \<le> Max (Date ` set df) \<and> u \<in> UnifiedUser ` set df"
      by (simp add: from_product_eq)
    finally show ?thesis .
  qed
  then show ?thesis using create_nonempty [OF assms(1)] by simp
qed

theorem dense_grid_complete_witness:
  "example_df \<noteq> [] \<and> distinct (map (\<lambda>r. (Date r, UnifiedUser r)) example_df) \<and>
   (\<exists>out. create_all_dates_user_df example_df = Inr out \<and>
      (\<forall>d u. length (filter (\<lambda>x. d_Date x = d \<and> d_UnifiedUser x = u) out) =
             (if Min (Date ` set example_df) \<le> d \<and> d \<le> Max (Date ` set example_df) \<and>
                 u \<in> UnifiedUser ` set example_df then 1 else 0)))"
  using example_df_ok dense_grid_complete [of example_df] by blast


lemma large_dense:
  "create_all_dates_user_df large_df =
     Inr [\<lparr>d_Date = 1, d_UnifiedUser = ''A'', d_Influence = 9007199254740992, d_Rank = Some 1\<rparr>,
          \<lparr>d_Date = 1, d_UnifiedUser = ''B'', d_Influence = 0, d_Rank = Some 1\<rparr>,
          \<lparr>d_Date = 2, d_UnifiedUser = ''A'', d_Influence = 0, d_Rank = Some 1\<rparr>,
          \<lparr>d_Date = 2, d_UnifiedUser = ''B'', d_Influence = 5, d_Rank = Some 1\<rparr>]"
  by code_simp

text \<open>
  C8, as stated: real rows keep their influence unchanged. When a pair of the grid has
  no real row, the merge turns the influence column into \<open>float64\<close>, which cannot hold
  every \<open>int64\<close>: the real row of \<open>A\<close> on day 1 with influence \<open>2 ^ 53 + 1\<close> comes out
  with influence \<open>2 ^ 53\<close>.
\<close>

theorem real_row_rounded_counterexample:
  "large_df =
     [\<lparr>Date = 1, UnifiedUser = ''A'', Influence = 9007199254740993, Rank = 1\<rparr>,
      \<lparr>Date = 2, UnifiedUser = ''B'', Influence = 5, Rank = 1\<rparr>] \<and>
   sint (9007199254740993 :: 64 word) = 9007199254740993 \<and>
   create_all_dates_user_df large_df =
     Inr [\<lparr>d_Date = 1, d_UnifiedUser = ''A'', d_Influence = 9007199254740992, d_Rank = Some 1\<rparr>,
          \<lparr>d_Date = 1, d_UnifiedUser = ''B'', d_Influence = 0, d_Rank = Some 1\<rparr>,
          \<lparr>d_Date = 2, d_UnifiedUser = ''A'', d_Influence = 0, d_Rank = Some 1\<rparr>,
          \<lparr>d_Date = 2, d_UnifiedUser = ''B'', d_Influence = 5, d_Rank = Some 1\<rparr>]"
proof (intro conjI)
  show "large_df =
     [\<lparr>Date = 1, UnifiedUser = ''A'', Influence = 9007199254740993, Rank = 1\<rparr>,
      \<lparr>Date = 2, UnifiedUser = ''B'', Influence = 5, Rank = 1\<rparr>]"
    by (rule large_df_def)
  show "sint (9007199254740993 :: 64 word) = 9007199254740993"
    by code_simp
  show "create_all_dates_user_df large_df =
     Inr [\<lparr>d_Date = 1, d_UnifiedUser = ''A'', d_Influence = 9007199254740992, d_Rank = Some 1\<rparr>,
          \<lparr>d_Date = 1, d_UnifiedUser = ''B'', d_Influence = 0, d_Rank = Some 1\<rparr>,
          \<lparr>d_Date = 2, d_UnifiedUser = ''A'', d_Influence = 0, d_Rank = Some 1\<rparr>,
          \<lparr>d_Date = 2, d_UnifiedUser = ''B'', d_Influence = 5, d_Rank = Some 1\<rparr>]"
    by (rule large_dense)
qed

text \<open>
  C8, amended: in the densified frame of a non-empty aggregated frame with ranks up to
  \<open>2 ^ 53\<close>, every pair of the grid that has no real row, on a date that has some real
  row, appears with influence 0 and the greatest rank among the real rows of that date.
  Every real row appears with its rank unchanged; its influence is unchanged when no
  pair of the grid is without a real row or when the influence is at most \<open>2 ^ 53\<close> in
  magnitude, and is otherwise the nearest \<open>float64\<close> value. The frame holds no other
  rows (a date without any real row keeps a missing rank).
\<close>

theorem dense_grid_fill:
  assumes "df \<noteq> []" and "\<forall>r\<in>set df. int (Rank r) \<le> 2 ^ 53"
  shows "\<exists>out na. create_all_dates_user_df df = Inr out \<and>
     (na \<longleftrightarrow> (\<exists>d u. Min (Date ` set df) \<le> d \<and> d \<le> Max (Date ` set df) \<and>
                    u \<in> UnifiedUser ` set df \<and>
                    (\<forall>r\<in>set df. \<not> (Date r = d \<and> UnifiedUser r = u)))) \<and>
     (\<forall>r\<in>set df. \<lparr>d_Date = Date r, d_UnifiedUser = UnifiedUser r,
                    d_Influence = (if na then float64_of_int (sint (Influence r))
                                   else sint (Influence r)),
                    d_Rank = Some (Rank r)\<rparr> \<in> set out) \<and>
     (\<forall>r\<in>set df. \<bar>sint (Influence r)\<bar> \<le> 2 ^ 53 \<longrightarrow>
                  \<lparr>d_Date = Date r, d_UnifiedUser = UnifiedUser r,
                   d_Influence = sint (Influence r), d_Rank = Some (Rank r)\<rparr> \<in> set out) \<and>
     (\<forall>d u. Min (Date ` set df) \<le> d \<and> d \<le> Max (Date ` set df) \<and> u \<in> UnifiedUser ` set df \<and>
            (\<forall>r\<in>set df. \<not> (Date r = d \<and> UnifiedUser r = u)) \<and> (\<exists>r\<in>set df. Date r = d) \<longrightarrow>
            \<lparr>d_Date = d, d_UnifiedUser = u, d_Influence = 0,
             d_Rank = Some (Max (Rank ` {r \<in> set df. Date r = d}))\<rparr> \<in> set out) \<and>
     (\<forall>x\<in>set out.
        (\<exists>r\<in>set df. x = \<lparr>d_Date = Date r, d_UnifiedUser = UnifiedUser r,
                            d_Influence = (if na then float64_of_int (sint (Influence r))
                                           else sint (Influence r)),
                            d_Rank = Some (Rank r)\<rparr>) \<or>
        ((\<forall>r\<in>set df. \<not> (Date r = d_Date x \<and> UnifiedUser r = d_UnifiedUser x)) \<and>
         d_Influence x = 0 \<and>
         d_Rank x = (if \<exists>r\<in>set df. Date r = d_Date x
                     then Some (Max (Rank ` {r \<in> set df. Date r = d_Date x})) else None)))"
proof -
  let ?full = "from_product [Min (Date ` set df)..Max (Date ` set df)] (unique (map UnifiedUser df))"
  let ?merged = "merge_left ?full df"
  let ?out = "groupby_apply m_Date fill_missing ?merged"
  let ?na = "has_unmatched ?full df"
  let ?copy = "\<lambda>r::ranked_row. \<lparr>d_Date = Date r, d_UnifiedUser = UnifiedUser r,
                    d_Influence = (if ?na then float64_of_int (sint (Influence r))
                                   else sint (Influence r)),
                    d_Rank = Some (Rank r)\<rparr>"
  have full: "(d, u) \<in> set ?full \<longleftrightarrow>
      Min (Date ` set df) \<le> d \<and> d \<le> Max (Date ` set df) \<and> u \<in> UnifiedUser ` set df" for d u
    by (simp add: from_product_eq)
  have na: "?na \<longleftrightarrow> (\<exists>d u. Min (Date ` set df) \<le> d \<and> d \<le> Max (Date ` set df) \<and>
                    u \<in> UnifiedUser ` set df \<and>
                    (\<forall>r\<in>set df. \<not> (Date r = d \<and> UnifiedUser r = u)))"
    unfolding has_unmatched_iff full by blast
  have cover: "\<forall>r\<in>set df. (Date r, UnifiedUser r) \<in> set ?full"
    unfolding full by simp
  have rk: "nat (merged_value ?na (int (Rank r))) = Rank r" if "r \<in> set df" for r
    using assms(2) that by (simp add: merged_value_small)
  have maxr: "series_max (map m_Rank (filter (\<lambda>m'. m_Date m' = d) ?merged)) =
      (if \<exists>r\<in>set df. Date r = d then Some (Max (Rank ` {r \<in> set df. Date r = d})) else None)" for d
    unfolding series_max_eq ranks_of_merged_date [OF cover assms(2)] by auto
  have real: "?copy r \<in> set ?out" if r: "r \<in> set df" for r
  proof -
    let ?m = "\<lparr>m_Date = Date r, m_UnifiedUser = UnifiedUser r,
               m_Influence = Some (merged_value ?na (sint (Influence r))),
               m_Rank = Some (nat (merged_value ?na (int (Rank r))))\<rparr>"
    from cover r have "(Date r, UnifiedUser r) \<in> set ?full" by blast
    moreover from r have "?m \<in> set (matched_rows ?na (Date r) (UnifiedUser r) df)"
      unfolding in_matched_rows_iff by blast
    ultimately have "?m \<in> set ?merged" unfolding in_merge_left_iff by blast
    then have "\<lparr>m_Date = Date r, m_UnifiedUser = UnifiedUser r,
                m_Influence = Some (merged_value ?na (sint (Influence r))),
                m_Rank = Some (Rank r)\<rparr> \<in> set ?merged"
      by (simp only: rk [OF r])
    then show ?thesis unfolding in_dense_iff
      by (rule bexI [rotated]) (simp add: merged_value_def)
  qed
  have exact: "\<lparr>d_Date = Date r, d_UnifiedUser = UnifiedUser r,
                   d_Influence = sint (Influence r), d_Rank = Some (Rank r)\<rparr> \<in> set ?out"
    if r: "r \<in> set df" and b: "\<bar>sint (Influence r)\<bar> \<le> 2 ^ 53" for r
  proof -
    have "(if ?na then float64_of_int (sint (Influence r)) else sint (Influence r)) =
          sint (Influence r)"
      using float64_of_int_small [OF b] by (simp split: if_splits)
    with real [OF r] show ?thesis by (simp only:)
  qed
  have synth: "\<lparr>d_Date = d, d_UnifiedUser = u, d_Influence = 0,
             d_Rank = Some (Max (Rank ` {r \<in> set df. Date r = d}))\<rparr> \<in> set ?out"
    if g: "Min (Date ` set df) \<le> d \<and> d \<le> Max (Date ` set df) \<and> u \<in> UnifiedUser ` set df"
      and absent: "\<forall>r\<in>set df. \<not> (Date r = d \<and> UnifiedUser r = u)"
      and some: "\<exists>r\<in>set df. Date r = d" for d u
  proof -
    let ?m = "\<lparr>m_Date = d, m_UnifiedUser = u, m_Influence = None, m_Rank = None\<rparr>"
    from g have "(d, u) \<in> set ?full" unfolding full .
    moreover from absent have "?m \<in> set (matched_rows ?na d u df)"
      unfolding in_matched_rows_iff by blast
    ultimately have "?m \<in> set ?merged" unfolding in_merge_left_iff by blast
    then show ?thesis unfolding in_dense_iff
      by (rule bexI [rotated]) (simp add: maxr some)
  qed
  have only: "(\<exists>r\<in>set df. x = ?copy r) \<or>
        ((\<forall>r\<in>set df. \<not> (Date r = d_Date x \<and> UnifiedUser r = d_UnifiedUser x)) \<and>
         d_Influence x = 0 \<and>
         d_Rank x = (if \<exists>r\<in>set df. Date r = d_Date x
                     then Some (Max (Rank ` {r \<in> set df. Date r = d_Date x})) else None))"
    if x: "x \<in> set ?out" for x
  proof -
    from x obtain m where m: "m \<in> set ?merged"
      and xm: "x = \<lparr>d_Date = m_Date m, d_UnifiedUser = m_UnifiedUser m,
            d_Influence = (case m_Influence m of None \<Rightarrow> 0 | Some v \<Rightarrow> v),
            d_Rank = (case m_Rank m of
                        None \<Rightarrow> series_max (map m_Rank (filter (\<lambda>m'. m_Date m' = m_Date m) ?merged))
                      | Some k \<Rightarrow> Some k)\<rparr>"
      unfolding in_dense_iff by blast
    from m obtain d u where "m \<in> set (matched_rows ?na d u df)"
      unfolding in_merge_left_iff by blast
    then have "((\<forall>r\<in>set df. \<not> (Date r = d \<and> UnifiedUser r = u)) \<and>
        m = \<lparr>m_Date = d, m_UnifiedUser = u, m_Influence = None, m_Rank = None\<rparr>) \<or>
       (\<exists>r\<in>set df. Date r = d \<and> UnifiedUser r = u \<and>
          m = \<lparr>m_Date = d, m_UnifiedUser = u,
                m_Influence = Some (merged_value ?na (sint (Influence r))),
                m_Rank = Some (nat (merged_value ?na (int (Rank r))))\<rparr>)"
      unfolding in_matched_rows_iff .
    then show ?thesis
    proof
      assume a: "(\<forall>r\<in>set df. \<not> (Date r = d \<and> UnifiedUser r = u)) \<and>
        m = \<lparr>m_Date = d, m_UnifiedUser = u, m_Influence = None, m_Rank = None\<rparr>"
      then have "x = \<lparr>d_Date = d, d_UnifiedUser = u, d_Influence = 0,
                 d_Rank = (if \<exists>r\<in>set df. Date r = d
                     then Some (Max (Rank ` {r \<in> set df. Date r = d})) else None)\<rparr>"
        using xm by (simp add: maxr)
      with a show ?thesis by simp
    next
      assume "\<exists>r\<in>set df. Date r = d \<and> UnifiedUser r = u \<and>
          m = \<lparr>m_Date = d, m_UnifiedUser = u,
                m_Influence = Some (merged_value ?na (sint (Influence r))),
                m_Rank = Some (nat (merged_value ?na (int (Rank r))))\<rparr>"
      then obtain r where r: "r \<in> set df" "Date r = d" "UnifiedUser r = u"
        "m = \<lparr>m_Date = d, m_UnifiedUser = u,
                m_Influence = Some (merged_value ?na (sint (Influence r))),
                m_Rank = Some (nat (merged_value ?na (int (Rank r))))\<rparr>"
        by blast
      from r(4) have "m = \<lparr>m_Date = d, m_UnifiedUser = u,
                m_Influence = Some (merged_value ?na (sint (Influence r))),
                m_Rank = Some (Rank r)\<rparr>"
        by (simp only: rk [OF r(1)])
      with xm r(1,2,3) have "r \<in> set df \<and> x = ?copy r"
        by (simp add: merged_value_def)
      then show ?thesis by blast
    qed
  qed
  have "create_all_dates_user_df df = Inr ?out \<and>
     (?na \<longleftrightarrow> (\<exists>d u. Min (Date ` set df) \<le> d \<and> d \<le> Max (Date ` set df) \<and>
                    u \<in> UnifiedUser ` set df \<and>
                    (\<forall>r\<in>set df. \<not> (Date r = d \<and> UnifiedUser r = u)))) \<and>
     (\<forall>r\<in>set df. \<lparr>d_Date = Date r, d_UnifiedUser = UnifiedUser r,
                    d_Influence = (if ?na then float64_of_int (sint (Influence r))
                                   else sint (Influence r)),
                    d_Rank = Some (Rank r)\<rparr> \<in> set ?out) \<and>
     (\<forall>r\<in>set df. \<bar>sint (Influence r)\<bar> \<le> 2 ^ 53 \<longrightarrow>
                  \<lparr>d_Date = Date r, d_UnifiedUser = UnifiedUser r,
                   d_Influence = sint (Influence r), d_Rank = Some (Rank r)\<rparr> \<in> set ?out) \<and>
     (\<forall>d u. Min (Date ` set df) \<le> d \<and> d \<le> Max (Date ` set df) \<and> u \<in> UnifiedUser ` set df \<and>
            (\<forall>r\<in>set df. \<not> (Date r = d \<and> UnifiedUser r = u)) \<and> (\<exists>r\<in>set df. Date r = d) \<longrightarrow>
            \<lparr>d_Date = d, d_UnifiedUser = u, d_Influence = 0,
             d_Rank = Some (Max (Rank ` {r \<in> set df. Date r = d}))\<rparr> \<in> set ?out) \<and>
     (\<forall>x\<in>set ?out.
        (\<exists>r\<in>set df. x = \<lparr>d_Date = Date r, d_UnifiedUser = UnifiedUser r,
                            d_Influence = (if ?na then float64_of_int (sint (Influence r))
                                           else sint (Influence r)),
                            d_Rank = Some (Rank r)\<rparr>) \<or>
        ((\<forall>r\<in>set df. \<not> (Date r = d_Date x \<and> UnifiedUser r = d_UnifiedUser x)) \<and>
         d_Influence x = 0 \<and>
         d_Rank x = (if \<exists>r\<in>set df. Date r = d_Date x
                     then Some (Max (Rank ` {r \<in> set df. Date r = d_Date x})) else None)))"
  proof (intro conjI ballI)
    show "create_all_dates_user_df df = Inr ?out"
      by (rule create_nonempty [OF assms(1)])
  next
    show "?na \<longleftrightarrow> (\<exists>d u. Min (Date ` set df) \<le> d \<and> d \<le> Max (Date ` set df) \<and>
                    u \<in> UnifiedUser ` set df \<and>
                    (\<forall>r\<in>set df. \<not> (Date r = d \<and> UnifiedUser r = u)))"
      by (rule na)
  next
    fix r assume "r \<in> set df"
    then show "?copy r \<in> set ?out" by (rule real)
  next
    fix r assume "r \<in> set df"
    then show "\<bar>sint (Influence r)\<bar> \<le> 2 ^ 53 \<longrightarrow>
                  \<lparr>d_Date = Date r, d_UnifiedUser = UnifiedUser r,
                   d_Influence = sint (Influence r), d_Rank = Some (Rank r)\<rparr> \<in> set ?out"
      using exact by blast
  next
    show "\<forall>d u. Min (Date ` set df) \<le> d \<and> d \<le> Max (Date ` set df) \<and> u \<in> UnifiedUser ` set df \<and>
            (\<forall>r\<in>set df. \<not> (Date r = d \<and> UnifiedUser r = u)) \<and> (\<exists>r\<in>set df. Date r = d) \<longrightarrow>
            \<lparr>d_Date = d, d_UnifiedUser = u, d_Influence = 0,
             d_Rank = Some (Max (Rank ` {r \<in> set df. Date r = d}))\<rparr> \<in> set ?out"
      using synth by blast
  next
    fix x assume "x \<in> set ?out"
    then show "(\<exists>r\<in>set df. x = ?copy r) \<or>
        ((\<forall>r\<in>set df. \<not> (Date r = d_Date x \<and> UnifiedUser r = d_UnifiedUser x)) \<and>
         d_Influence x = 0 \<and>
         d_Rank x = (if \<exists>r\<in>set df. Date r = d_Date x
                     then Some (Max (Rank ` {r \<in> set df. Date r = d_Date x})) else None))"
      by (rule only)
  qed
  then show ?thesis by - (rule exI, rule exI, assumption)
qed

theorem dense_grid_fill_witness:
  "example_df \<noteq> [] \<and>
   (\<exists>out. create_all_dates_user_df example_df = Inr out \<and>
      \<lparr>d_Date = 1, d_UnifiedUser = ''A'', d_Influence = 10, d_Rank = Some 1\<rparr> \<in> set out \<and>
      \<lparr>d_Date = 2, d_UnifiedUser = ''B'', d_Influence = 0,
       d_Rank = Some (Max (Rank ` {r \<in> set example_df. Date r = 2}))\<rparr> \<in> set out)"
proof -
  have ne: "example_df \<noteq> []" by (simp add: example_df_def)
  have small: "\<forall>r\<in>set example_df. int (Rank r) \<le> 2 ^ 53" by (simp add: example_df_def)
  have g: "Min (Date ` set example_df) \<le> 2 \<and> 2 \<le> Max (Date ` set example_df) \<and>
      ''B'' \<in> UnifiedUser ` set example_df \<and>
      (\<forall>r\<in>set example_df. \<not> (Date r = 2 \<and> UnifiedUser r = ''B'')) \<and>
      (\<exists>r\<in>set example_df. Date r = 2)"
    by (simp add: example_df_def)
  have r: "\<lparr>Date = 1, UnifiedUser = ''A'', Influence = 10, Rank = 1\<rparr> \<in> set example_df"
    by (simp add: example_df_def)
  have b: "\<bar>sint (Influence \<lparr>Date = 1, UnifiedUser = ''A'', Influence = 10, Rank = 1\<rparr>)\<bar> \<le> 2 ^ 53"
    by simp
  from dense_grid_fill [OF ne small] obtain out where
    out: "create_all_dates_user_df example_df = Inr out"
    and real: "\<forall>r\<in>set example_df. \<bar>sint (Influence r)\<bar> \<le> 2 ^ 53 \<longrightarrow>
        \<lparr>d_Date = Date r, d_UnifiedUser = UnifiedUser r,
         d_Influence = sint (Influence r), d_Rank = Some (Rank r)\<rparr> \<in> set out"
    and synth: "\<forall>d u. Min (Date ` set example_df) \<le> d \<and> d \<le> Max (Date ` set example_df) \<and>
        u \<in> UnifiedUser ` set example_df \<and>
        (\<forall>r\<in>set example_df. \<not> (Date r = d \<and> UnifiedUser r = u)) \<and>
        (\<exists>r\<in>set example_df. Date r = d) \<longrightarrow>
        \<lparr>d_Date = d, d_UnifiedUser = u, d_Influence = 0,
         d_Rank = Some (Max (Rank ` {r \<in> set example_df. Date r = d}))\<rparr> \<in> set out"
    by blast
  from real r b have "\<lparr>d_Date = 1, d_UnifiedUser = ''A'', d_Influence = 10, d_Rank = Some 1\<rparr> \<in> set out"
    by fastforce
  moreover from synth g have "\<lparr>d_Date = 2, d_UnifiedUser = ''B'', d_Influence = 0,
       d_Rank = Some (Max (Rank ` {r \<in> set example_df. Date r = 2}))\<rparr> \<in> set out"
    by blast
  ultimately show ?thesis using ne out by blast
qed

end
